theory Spec2Isabelle
  imports Main "HOL-Library.Multiset"
begin

section \<open>Data model of cmd/check.go\<close>

text \<open>
  The command's flags are package-level variables (\<^verbatim>\<open>timeout\<close>, \<^verbatim>\<open>urls\<close>,
  \<^verbatim>\<open>verbose\<close>); they are read by \<^verbatim>\<open>runCheck\<close> and by \<^verbatim>\<open>checkEndpoint\<close>.
\<close>

record flags =
  timeout :: int
  urls :: "string list"
  verbose :: bool

record Endpoint =
  Name :: string
  URL :: string

text \<open>
  Go's \<^verbatim>\<open>error\<close> interface value is modelled by its message; \<^verbatim>\<open>nil\<close> is \<open>None\<close>.
  \<^verbatim>\<open>time.Duration\<close> and clock readings are integers (nanoseconds).
\<close>

type_synonym error = string

record HealthResult =
  Endpoint :: Endpoint
  IsHealthy :: bool
  StatusCode :: int
  Duration :: int
  Error :: "error option"

subsection \<open>The outside world: clock, transport, response bodies\<close>

text \<open>
  Of \<^verbatim>\<open>http.Response\<close> the program uses the fields \<^verbatim>\<open>StatusCode\<close> and \<^verbatim>\<open>Body\<close>.
  A body is a handle; the world records which handles are open.
\<close>

record Response =
  RespStatusCode :: int
  RespBody :: nat

record world =
  now :: int
  open_bodies :: "nat set"

text \<open>
  \<^verbatim>\<open>client.Get\<close> returns \<^verbatim>\<open>(resp, err)\<close>. The contract of net/http is: when \<^verbatim>\<open>err\<close> is
  nil, \<^verbatim>\<open>resp\<close> is non-nil and its body is open and must be closed by the caller; when
  \<^verbatim>\<open>err\<close> is non-nil the response can be ignored (it is nil, or, after a failed redirect
  check, non-nil with its body already closed). The two cases are the two constructors.
\<close>

datatype get_result = Got Response | Failed error "Response option"

text \<open>
  The network is a parameter: what \<^verbatim>\<open>Get\<close> answers for a client timeout and a URL.
\<close>

type_synonym transport = "int \<Rightarrow> string \<Rightarrow> get_result"

definition client_Get :: "transport \<Rightarrow> int \<Rightarrow> string \<Rightarrow> world \<Rightarrow> get_result \<times> world" where
  "client_Get net tmo url w =
     (case net tmo url of
        Got resp \<Rightarrow> (Got resp, w\<lparr>open_bodies := insert (RespBody resp) (open_bodies w)\<rparr>)
      | Failed err r \<Rightarrow> (Failed err r, w))"

definition Body_Close :: "nat \<Rightarrow> world \<Rightarrow> world" where
  "Body_Close b w = w\<lparr>open_bodies := open_bodies w - {b}\<rparr>"

definition tick :: "nat \<Rightarrow> world \<Rightarrow> world" where
  "tick d w = w\<lparr>now := now w + int d\<rparr>"

definition time_Now :: "world \<Rightarrow> int" where
  "time_Now w = now w"

definition maxDuration :: int where
  "maxDuration = 2 ^ 63 - 1"

definition minDuration :: int where
  "minDuration = - (2 ^ 63)"

text \<open>\<^verbatim>\<open>Time.Sub\<close> saturates at the bounds of \<^verbatim>\<open>int64\<close>.\<close>

definition time_Sub :: "int \<Rightarrow> int \<Rightarrow> int" where
  "time_Sub t u =
     (let d = t - u
      in if d > maxDuration then maxDuration
         else if d < minDuration then minDuration
         else d)"

definition time_Since :: "int \<Rightarrow> world \<Rightarrow> int" where
  "time_Since t w = time_Sub (time_Now w) t"

text \<open>Multiplication of \<^verbatim>\<open>int64\<close> values wraps around.\<close>

definition wrap64 :: "int \<Rightarrow> int" where
  "wrap64 x = (x + 2 ^ 63) mod 2 ^ 64 - 2 ^ 63"

definition time_Second :: int where
  "time_Second = 1000000000"

section \<open>checkEndpoint\<close>

text \<open>
  The locals of \<^verbatim>\<open>checkEndpoint\<close> at the call of \<^verbatim>\<open>client.Get\<close> (line 114), where the
  function blocks: the argument, \<^verbatim>\<open>start\<close> and the client's \<^verbatim>\<open>Timeout\<close>.
\<close>

record frame =
  fr_endpoint :: Endpoint
  fr_start :: int
  fr_Timeout :: int

text \<open>Line 111: \<^verbatim>\<open>time.Duration(timeout) * time.Second\<close>.\<close>

definition client_Timeout :: "flags \<Rightarrow> int" where
  "client_Timeout fl = wrap64 (timeout fl * time_Second)"

text \<open>Lines 108 to 112: read the clock, build the client.\<close>

definition checkEndpoint_enter :: "flags \<Rightarrow> Endpoint \<Rightarrow> world \<Rightarrow> frame" where
  "checkEndpoint_enter fl endpoint w =
     \<lparr>fr_endpoint = endpoint,
      fr_start = time_Now w,
      fr_Timeout = client_Timeout fl\<rparr>"

text \<open>
  Lines 114 to 135: \<^verbatim>\<open>Get\<close> returns, the duration is taken, the result is built; on the
  response path the deferred \<^verbatim>\<open>resp.Body.Close()\<close> runs as the function returns.
\<close>

definition checkEndpoint_leave :: "transport \<Rightarrow> frame \<Rightarrow> world \<Rightarrow> HealthResult \<times> world" where
  "checkEndpoint_leave net fr w =
     (let (res, w1) = client_Get net (fr_Timeout fr) (URL (fr_endpoint fr)) w;
          duration = time_Since (fr_start fr) w1
      in case res of
           Failed err _ \<Rightarrow>
             (\<lparr>Endpoint = fr_endpoint fr, IsHealthy = False, StatusCode = 0,
               Duration = duration, Error = Some err\<rparr>, w1)
         | Got resp \<Rightarrow>
             (let isHealthy = (RespStatusCode resp \<ge> 200 \<and> RespStatusCode resp < 400)
              in (\<lparr>Endpoint = fr_endpoint fr, IsHealthy = isHealthy,
                   StatusCode = RespStatusCode resp, Duration = duration, Error = None\<rparr>,
                  Body_Close (RespBody resp) w1)))"

text \<open>
  The whole call, run by one thread: \<open>d\<close> is the time that passes on the clock while
  the thread is blocked in \<^verbatim>\<open>client.Get\<close>.
\<close>

definition checkEndpoint ::
  "transport \<Rightarrow> flags \<Rightarrow> Endpoint \<Rightarrow> nat \<Rightarrow> world \<Rightarrow> HealthResult \<times> world" where
  "checkEndpoint net fl endpoint d w =
     checkEndpoint_leave net (checkEndpoint_enter fl endpoint w) (tick d w)"

section \<open>Endpoint list construction in runCheck\<close>

text \<open>\<^verbatim>\<open>%d\<close> of \<^verbatim>\<open>fmt.Sprintf\<close> on a non-negative integer: its decimal digits.\<close>

definition digit :: "nat \<Rightarrow> char" where
  "digit d = char_of (48 + d)"

fun decimal :: "nat \<Rightarrow> string" where
  "decimal n = (if n < 10 then [digit n] else decimal (n div 10) @ [digit (n mod 10)])"

declare decimal.simps [simp del]

text \<open>
  Lines 74 to 79: the \<^verbatim>\<open>range\<close> loop over \<^verbatim>\<open>urls\<close> with index \<open>i\<close>, appending to
  \<^verbatim>\<open>endpoints\<close>.
\<close>

fun custom_endpoints :: "nat \<Rightarrow> string list \<Rightarrow> Endpoint list \<Rightarrow> Endpoint list" where
  "custom_endpoints i [] endpoints = endpoints"
| "custom_endpoints i (url # rest) endpoints =
     custom_endpoints (i + 1) rest
       (endpoints @ [\<lparr>Name = ''Custom-'' @ decimal (i + 1), URL = url\<rparr>])"

definition default_endpoints :: "Endpoint list" where
  "default_endpoints =
     [\<lparr>Name = ''Github API'', URL = ''https://api.github.com''\<rparr>,
      \<lparr>Name = ''JSONPlaceholder'', URL = ''https://jsonplaceholder.typicode.com/posts/1''\<rparr>,
      \<lparr>Name = ''Dog Breeds API'', URL = ''https://dog.ceo/api/breeds/list/all''\<rparr>]"

text \<open>Lines 71 to 87.\<close>

definition build_endpoints :: "string list \<Rightarrow> Endpoint list" where
  "build_endpoints us =
     (if length us > 0 then custom_endpoints 0 us [] else default_endpoints)"

section \<open>runCheck: the main goroutine, the probe goroutines, the WaitGroup\<close>

text \<open>
  Standard output is the sequence of print calls with their arguments: line 60
  (\<open>Banner\<close>), lines 61 and 103 (\<open>Rule\<close>), line 64 (\<open>TimeoutLine\<close>), line 66
  (\<open>Blank\<close>), the call \<^verbatim>\<open>printResult(result)\<close> of line 97 (\<open>Report\<close>) and line 104
  (\<open>Complete\<close>, with \<^verbatim>\<open>len(endpoints)\<close> and \<^verbatim>\<open>time.Since(start)\<close>). The text that
  \<^verbatim>\<open>printResult\<close> formats from its argument is not modelled.
\<close>

datatype out_event =
  Banner | Rule | TimeoutLine int | Blank | Report HealthResult | Complete nat int

text \<open>
  Program points of \<^verbatim>\<open>runCheck\<close>: before line 60, before line 68, before line 71, at
  the head of the loop of line 91 with the index of the next endpoint, between
  \<^verbatim>\<open>wg.Add(1)\<close> and the \<^verbatim>\<open>go\<close> statement (with the loop variable \<^verbatim>\<open>endpoint\<close>),
  at \<^verbatim>\<open>wg.Wait()\<close>, before line 103, and after the return.
\<close>

datatype main_pc =
  M_prologue | M_start | M_build | M_loop nat | M_go nat Endpoint
  | M_wait | M_epilogue | M_done

text \<open>
  Program points of the function literal of lines 94 to 98: before the call of
  \<^verbatim>\<open>checkEndpoint\<close>, blocked in \<^verbatim>\<open>client.Get\<close> inside it, before \<^verbatim>\<open>printResult\<close>,
  before the deferred \<^verbatim>\<open>wg.Done()\<close>, and exited. The exited goroutine keeps its result
  so that statements can refer to it.
\<close>

datatype g_pc =
  G_call | G_get frame | G_print HealthResult | G_defer HealthResult | G_exit HealthResult

record state =
  globals :: flags
  env :: world
  stdout :: "out_event list"
  start :: int
  endpoints :: "Endpoint list"
  wg :: int
  panicked :: bool
  main :: main_pc
  goroutines :: "(Endpoint \<times> g_pc) list"

text \<open>
  \<^verbatim>\<open>WaitGroup.Add\<close> panics when the counter would become negative (\<open>None\<close>);
  \<^verbatim>\<open>Done\<close> is \<^verbatim>\<open>Add(-1)\<close>; \<^verbatim>\<open>Wait\<close> blocks until the counter is zero.
\<close>

definition WaitGroup_Add :: "int \<Rightarrow> int \<Rightarrow> int option" where
  "WaitGroup_Add delta n = (if n + delta < 0 then None else Some (n + delta))"

definition main_step :: "state \<Rightarrow> state" where
  "main_step s =
     (case main s of
        M_prologue \<Rightarrow>
          s\<lparr>stdout := stdout s @ [Banner, Rule]
                 @ (if verbose (globals s) then [TimeoutLine (timeout (globals s))] else [])
                 @ [Blank],
            main := M_start\<rparr>
      | M_start \<Rightarrow> s\<lparr>start := time_Now (env s), main := M_build\<rparr>
      | M_build \<Rightarrow> s\<lparr>endpoints := build_endpoints (urls (globals s)), main := M_loop 0\<rparr>
      | M_loop k \<Rightarrow>
          (if k < length (endpoints s)
           then (case WaitGroup_Add 1 (wg s) of
                   None \<Rightarrow> s\<lparr>panicked := True\<rparr>
                 | Some n \<Rightarrow> s\<lparr>wg := n, main := M_go k (endpoints s ! k)\<rparr>)
           else s\<lparr>main := M_wait\<rparr>)
      | M_go k endpoint \<Rightarrow>
          s\<lparr>goroutines := goroutines s @ [(endpoint, G_call)], main := M_loop (k + 1)\<rparr>
      | M_wait \<Rightarrow> (if wg s = 0 then s\<lparr>main := M_epilogue\<rparr> else s)
      | M_epilogue \<Rightarrow>
          s\<lparr>stdout := stdout s
                 @ [Rule, Complete (length (endpoints s)) (time_Since (start s) (env s))],
            main := M_done\<rparr>
      | M_done \<Rightarrow> s)"

text \<open>
  One step of the \<open>i\<close>-th goroutine. Each goroutine has its own transport: two probes
  of one URL need not get the same answer. The transport always answers: a request
  that never returns (possible only without a deadline, that is with a timeout flag of
  zero or less) is not modelled, nor is a \<^verbatim>\<open>go\<close> statement that fails to start a goroutine.
\<close>

definition go_step :: "(nat \<Rightarrow> transport) \<Rightarrow> nat \<Rightarrow> state \<Rightarrow> state" where
  "go_step nets i s =
     (if i < length (goroutines s)
      then (case goroutines s ! i of
              (ep, G_call) \<Rightarrow>
                s\<lparr>goroutines := (goroutines s)
                     [i := (ep, G_get (checkEndpoint_enter (globals s) ep (env s)))]\<rparr>
            | (ep, G_get fr) \<Rightarrow>
                (let (result, w) = checkEndpoint_leave (nets i) fr (env s)
                 in s\<lparr>env := w, goroutines := (goroutines s)[i := (ep, G_print result)]\<rparr>)
            | (ep, G_print result) \<Rightarrow>
                s\<lparr>stdout := stdout s @ [Report result],
                  goroutines := (goroutines s)[i := (ep, G_defer result)]\<rparr>
            | (ep, G_defer result) \<Rightarrow>
                (case WaitGroup_Add (- 1) (wg s) of
                   None \<Rightarrow> s\<lparr>panicked := True\<rparr>
                 | Some n \<Rightarrow>
                     s\<lparr>wg := n, goroutines := (goroutines s)[i := (ep, G_exit result)]\<rparr>)
            | (ep, G_exit result) \<Rightarrow> s)
      else s)"

text \<open>
  A schedule is a list of events: the clock advances, the main goroutine takes a step,
  or the \<open>i\<close>-th probe goroutine takes a step. A goroutine that cannot move (blocked in
  \<^verbatim>\<open>Wait\<close>, exited, not yet started) stays where it is; a panic stops the program.
\<close>

datatype event = Tick nat | Main | Go nat

definition step :: "(nat \<Rightarrow> transport) \<Rightarrow> event \<Rightarrow> state \<Rightarrow> state" where
  "step nets e s =
     (if panicked s then s
      else (case e of
              Tick d \<Rightarrow> s\<lparr>env := tick d (env s)\<rparr>
            | Main \<Rightarrow> main_step s
            | Go i \<Rightarrow> go_step nets i s))"

fun run :: "(nat \<Rightarrow> transport) \<Rightarrow> event list \<Rightarrow> state \<Rightarrow> state" where
  "run nets [] s = s"
| "run nets (e # es) s = run nets es (step nets e s)"

text \<open>The program at the call of \<^verbatim>\<open>runCheck\<close>.\<close>

definition initial :: "flags \<Rightarrow> world \<Rightarrow> state" where
  "initial fl w =
     \<lparr>globals = fl, env = w, stdout = [], start = 0, endpoints = [], wg = 0,
      panicked = False, main = M_prologue, goroutines = []\<rparr>"

text \<open>
  The dispatch loop of lines 89 to 104 entered with a given endpoint list, which may be
  empty.
\<close>

definition dispatch :: "flags \<Rightarrow> world \<Rightarrow> Endpoint list \<Rightarrow> state" where
  "dispatch fl w eps =
     \<lparr>globals = fl, env = w, stdout = [], start = time_Now w, endpoints = eps, wg = 0,
      panicked = False, main = M_loop 0, goroutines = []\<rparr>"

subsection \<open>Observations on a state\<close>

fun reports :: "out_event list \<Rightarrow> HealthResult list" where
  "reports [] = []"
| "reports (Report r # out) = r # reports out"
| "reports (_ # out) = reports out"

fun is_TimeoutLine :: "out_event \<Rightarrow> bool" where
  "is_TimeoutLine (TimeoutLine _) = True"
| "is_TimeoutLine _ = False"

fun is_Complete :: "out_event \<Rightarrow> bool" where
  "is_Complete (Complete _ _) = True"
| "is_Complete _ = False"

fun exited :: "g_pc \<Rightarrow> bool" where
  "exited (G_exit _) = True"
| "exited _ = False"

fun result_of :: "g_pc \<Rightarrow> HealthResult option" where
  "result_of (G_print r) = Some r"
| "result_of (G_defer r) = Some r"
| "result_of (G_exit r) = Some r"
| "result_of _ = None"

fun printed :: "g_pc \<Rightarrow> HealthResult option" where
  "printed (G_defer r) = Some r"
| "printed (G_exit r) = Some r"
| "printed _ = None"

definition past_barrier :: "state \<Rightarrow> bool" where
  "past_barrier s = (main s = M_epilogue \<or> main s = M_done)"

text \<open>
  What \<^verbatim>\<open>checkEndpoint\<close> makes of an answer of the transport, apart from the duration.
\<close>

definition outcome_of :: "get_result \<Rightarrow> Endpoint \<Rightarrow> HealthResult \<Rightarrow> bool" where
  "outcome_of res ep r =
     (Endpoint r = ep \<and>
      (case res of
         Got resp \<Rightarrow>
           StatusCode r = RespStatusCode resp \<and> Error r = None
           \<and> IsHealthy r = (200 \<le> RespStatusCode resp \<and> RespStatusCode resp < 400)
       | Failed err _ \<Rightarrow> StatusCode r = 0 \<and> Error r = Some err \<and> \<not> IsHealthy r))"

text \<open>
  The number of steps the goroutines still have to take: for the main goroutine (with
  four steps for every goroutine not yet started) and for a probe goroutine.
\<close>

fun main_todo :: "nat \<Rightarrow> main_pc \<Rightarrow> nat" where
  "main_todo n M_prologue = 6 * n + 6"
| "main_todo n M_start = 6 * n + 5"
| "main_todo n M_build = 6 * n + 4"
| "main_todo n (M_loop k) = 6 * (n - k) + 3"
| "main_todo n (M_go k _) = 6 * (n - k) + 2"
| "main_todo n M_wait = 2"
| "main_todo n M_epilogue = 1"
| "main_todo n M_done = 0"

fun g_todo :: "g_pc \<Rightarrow> nat" where
  "g_todo G_call = 4"
| "g_todo (G_get _) = 3"
| "g_todo (G_print _) = 2"
| "g_todo (G_defer _) = 1"
| "g_todo (G_exit _) = 0"

fun before_loop :: "main_pc \<Rightarrow> bool" where
  "before_loop M_prologue = True"
| "before_loop M_start = True"
| "before_loop M_build = True"
| "before_loop _ = False"

definition todo :: "state \<Rightarrow> nat" where
  "todo s =
     main_todo (if before_loop (main s) then length (build_endpoints (urls (globals s)))
                else length (endpoints s)) (main s)
     + sum_list (map (g_todo \<circ> snd) (goroutines s))"

definition thread_events :: "state \<Rightarrow> event list" where
  "thread_events s = Main # map Go [0..<length (goroutines s)]"

subsection \<open>The invariant of a run\<close>

text \<open>The number of goroutines that have not exited.\<close>

definition pending :: "(Endpoint \<times> g_pc) list \<Rightarrow> nat" where
  "pending gs = length (filter (\<lambda>g. \<not> exited (snd g)) gs)"

text \<open>The results of the goroutines that are past \<^verbatim>\<open>printResult\<close>, in spawn order.\<close>

fun printed_results :: "(Endpoint \<times> g_pc) list \<Rightarrow> HealthResult list" where
  "printed_results [] = []"
| "printed_results ((ep, pc) # gs) =
     (case printed pc of None \<Rightarrow> printed_results gs | Some r \<Rightarrow> r # printed_results gs)"

text \<open>
  What holds of the \<open>i\<close>-th goroutine at each of its program points: the frame is the
  one of its endpoint, and a result it holds is the outcome of its own request.
\<close>

definition g_ok :: "transport \<Rightarrow> flags \<Rightarrow> Endpoint \<Rightarrow> g_pc \<Rightarrow> bool" where
  "g_ok net fl ep pc =
     (case pc of
        G_call \<Rightarrow> True
      | G_get fr \<Rightarrow> fr_endpoint fr = ep \<and> fr_Timeout fr = client_Timeout fl
      | G_print r \<Rightarrow> outcome_of (net (client_Timeout fl) (URL ep)) ep r
      | G_defer r \<Rightarrow> outcome_of (net (client_Timeout fl) (URL ep)) ep r
      | G_exit r \<Rightarrow> outcome_of (net (client_Timeout fl) (URL ep)) ep r)"

text \<open>
  What holds of the main goroutine at each of its program points: the WaitGroup counter
  is the number of goroutines not yet exited (plus one between \<^verbatim>\<open>Add\<close> and \<^verbatim>\<open>go\<close>), and
  one goroutine has been started for every endpoint the loop has passed.
\<close>

fun main_ok :: "Endpoint list \<Rightarrow> (Endpoint \<times> g_pc) list \<Rightarrow> int \<Rightarrow> main_pc \<Rightarrow> bool" where
  "main_ok eps gs n (M_loop k) =
     (length gs = k \<and> k \<le> length eps \<and> n = int (pending gs))"
| "main_ok eps gs n (M_go k ep) =
     (length gs = k \<and> k < length eps \<and> ep = eps ! k \<and> n = int (pending gs) + 1)"
| "main_ok eps gs n M_wait = (length gs = length eps \<and> n = int (pending gs))"
| "main_ok eps gs n M_epilogue = (length gs = length eps \<and> n = 0 \<and> pending gs = 0)"
| "main_ok eps gs n M_done = (length gs = length eps \<and> n = 0 \<and> pending gs = 0)"
| "main_ok eps gs n _ = (gs = [] \<and> n = 0)"

definition invariant :: "(nat \<Rightarrow> transport) \<Rightarrow> state \<Rightarrow> bool" where
  "invariant nets s =
     (\<not> panicked s \<and> main_ok (endpoints s) (goroutines s) (wg s) (main s)
      \<and> (\<forall>i < length (goroutines s).
            fst (goroutines s ! i) = endpoints s ! i
            \<and> g_ok (nets i) (globals s) (endpoints s ! i) (snd (goroutines s ! i)))
      \<and> mset (reports (stdout s)) = mset (printed_results (goroutines s))
      \<and> (list_ex is_Complete (stdout s) \<longrightarrow> main s = M_done))"

text \<open>Past line 87 the endpoint list is the one built from the \<^verbatim>\<open>urls\<close> flag.\<close>

definition built :: "state \<Rightarrow> bool" where
  "built s = (before_loop (main s) \<or> endpoints s = build_endpoints (urls (globals s)))"

text \<open>A state without the verbose flag and without the line it prints.\<close>

definition erase :: "state \<Rightarrow> state" where
  "erase s =
     s\<lparr>globals := (globals s)\<lparr>verbose := False\<rparr>,
       stdout := filter (\<lambda>e. \<not> is_TimeoutLine e) (stdout s)\<rparr>"

text \<open>Decimal digits read back as a number.\<close>

definition digit_value :: "char \<Rightarrow> nat" where
  "digit_value c = of_char c - 48"

definition parse_decimal :: "string \<Rightarrow> nat" where
  "parse_decimal cs = foldl (\<lambda>a c. 10 * a + digit_value c) 0 cs"

section \<open>Fixtures\<close>

text \<open>The flag defaults registered in \<^verbatim>\<open>init\<close>.\<close>

definition default_flags :: flags where
  "default_flags = \<lparr>timeout = 10, urls = [], verbose = False\<rparr>"

text \<open>A transport that answers every request with one fixed status code.\<close>

definition synthetic :: "int \<Rightarrow> transport" where
  "synthetic code tmo url = Got \<lparr>RespStatusCode = code, RespBody = 7\<rparr>"

text \<open>A transport on which every request fails.\<close>

definition refusing :: transport where
  "refusing tmo url = Failed ''connection refused'' None"

definition github :: Endpoint where
  "github = \<lparr>Name = ''Github API'', URL = ''https://api.github.com''\<rparr>"

definition world0 :: world where
  "world0 = \<lparr>now = 1000, open_bodies = {}\<rparr>"

text \<open>Three transports: status 200, status 500, and a refused connection.\<close>

definition mixed_nets :: "nat \<Rightarrow> transport" where
  "mixed_nets i = (if i = 0 then synthetic 200 else if i = 1 then synthetic 500 else refusing)"

text \<open>
  A schedule of the dispatch loop over three endpoints in which the three probes overlap,
  and schedules of \<^verbatim>\<open>runCheck\<close>: a complete one, one that leaves the main goroutine
  in \<^verbatim>\<open>Wait\<close> with probes outstanding, and a short one.
\<close>

definition schedule3 :: "event list" where
  "schedule3 =
     [Main, Main, Go 0, Main, Main, Main, Main, Go 2, Tick 10, Main, Go 1, Go 1, Tick 40,
      Go 0, Go 0, Go 1, Main, Tick 150, Go 2, Go 2, Go 2, Go 1, Go 0, Main, Tick 1, Main]"

definition runCheck_schedule :: "event list" where
  "runCheck_schedule = [Main, Tick 2, Main, Main] @ schedule3"

definition waiting_schedule :: "event list" where
  "waiting_schedule = [Main, Main, Main, Main, Main, Main, Main, Main, Main, Main, Go 1, Go 1]"

definition short_schedule :: "event list" where
  "short_schedule = [Main, Main, Main, Main, Main, Go 0, Go 0, Go 0]"

section \<open>Properties of checkEndpoint\<close>

lemma time_Sub_tick: "time_Sub (t + int d) t = min (int d) maxDuration"
  by (simp add: time_Sub_def Let_def maxDuration_def minDuration_def min_def)

lemma checkEndpoint_Got:
  assumes "net (client_Timeout fl) (URL ep) = Got resp"
  shows "checkEndpoint net fl ep d w =
     (\<lparr>Endpoint = ep,
       IsHealthy = (200 \<le> RespStatusCode resp \<and> RespStatusCode resp < 400),
       StatusCode = RespStatusCode resp,
       Duration = min (int d) maxDuration,
       Error = None\<rparr>,
      w\<lparr>now := now w + int d, open_bodies := open_bodies w - {RespBody resp}\<rparr>)"
  using assms
  by (simp add: checkEndpoint_def checkEndpoint_leave_def checkEndpoint_enter_def
      client_Get_def Body_Close_def tick_def time_Since_def time_Now_def time_Sub_tick)

lemma checkEndpoint_Failed:
  assumes "net (client_Timeout fl) (URL ep) = Failed err x"
  shows "checkEndpoint net fl ep d w =
     (\<lparr>Endpoint = ep, IsHealthy = False, StatusCode = 0,
       Duration = min (int d) maxDuration, Error = Some err\<rparr>,
      w\<lparr>now := now w + int d\<rparr>)"
  using assms
  by (simp add: checkEndpoint_def checkEndpoint_leave_def checkEndpoint_enter_def
      client_Get_def tick_def time_Since_def time_Now_def time_Sub_tick)

lemma synthetic_Got: "synthetic c tmo url = Got \<lparr>RespStatusCode = c, RespBody = 7\<rparr>"
  by (simp add: synthetic_def)

lemma refusing_Failed: "refusing tmo url = Failed ''connection refused'' None"
  by (simp add: refusing_def)

lemma checkEndpoint_synthetic:
  "checkEndpoint (synthetic c) default_flags github 5 world0 =
     (\<lparr>Endpoint = github, IsHealthy = (200 \<le> c \<and> c < 400), StatusCode = c,
       Duration = 5, Error = None\<rparr>,
      \<lparr>now = 1005, open_bodies = {}\<rparr>)"
  using checkEndpoint_Got [of "synthetic c" default_flags github
        "\<lparr>RespStatusCode = c, RespBody = 7\<rparr>" 5 world0]
  by (simp add: synthetic_Got world0_def maxDuration_def)

lemma checkEndpoint_refusing:
  "checkEndpoint refusing default_flags github 5 world0 =
     (\<lparr>Endpoint = github, IsHealthy = False, StatusCode = 0,
       Duration = 5, Error = Some ''connection refused''\<rparr>,
      \<lparr>now = 1005, open_bodies = {}\<rparr>)"
  using checkEndpoint_Failed [of refusing default_flags github
        "''connection refused''" None 5 world0]
  by (simp add: refusing_Failed world0_def maxDuration_def)

lemma checkEndpoint_leave_Duration:
  "Duration (fst (checkEndpoint_leave net fr w)) = time_Sub (now w) (fr_start fr)"
  by (simp add: checkEndpoint_leave_def client_Get_def time_Since_def time_Now_def
      Body_Close_def split: get_result.splits)

text \<open>
  Claim C1, as stated, at a response whose status code is 0 (the status line
  \<^verbatim>\<open>HTTP/1.1 000\<close> is accepted by net/http): the result has \<open>StatusCode = 0\<close> and
  \<open>Error = None\<close>, so neither field is populated.
\<close>

theorem status_zero_counterexample:
  "\<not> ((StatusCode (fst (checkEndpoint (synthetic 0) default_flags github 5 world0)) \<noteq> 0)
       \<noteq> (Error (fst (checkEndpoint (synthetic 0) default_flags github 5 world0)) \<noteq> None))"
  by (simp add: checkEndpoint_synthetic)

text \<open>
  Claim C1, amended: for every result of \<open>checkEndpoint\<close>, a non-zero \<open>StatusCode\<close>
  and a non-nil \<open>Error\<close> never hold together; \<open>Error\<close> is nil exactly when a response
  was received, and then \<open>StatusCode\<close> is the response's status code; exactly one of the
  two fields is populated whenever the status code of a received response is not 0;
  \<open>IsHealthy\<close> is true iff \<open>StatusCode\<close> is non-zero and lies in [200, 400), and it is
  never true when \<open>Error\<close> is set.
\<close>

theorem checkEndpoint_status_error_exclusive:
  assumes "checkEndpoint net fl ep d w = (r, w')"
  shows "\<not> (StatusCode r \<noteq> 0 \<and> Error r \<noteq> None)
    \<and> (Error r = None \<longleftrightarrow>
         (\<exists>resp. net (client_Timeout fl) (URL ep) = Got resp \<and> StatusCode r = RespStatusCode resp))
    \<and> ((\<forall>resp. net (client_Timeout fl) (URL ep) = Got resp \<longrightarrow> RespStatusCode resp \<noteq> 0)
         \<longrightarrow> ((StatusCode r \<noteq> 0) \<noteq> (Error r \<noteq> None)))
    \<and> (IsHealthy r \<longleftrightarrow> StatusCode r \<noteq> 0 \<and> 200 \<le> StatusCode r \<and> StatusCode r < 400)
    \<and> (Error r \<noteq> None \<longrightarrow> \<not> IsHealthy r)"
proof (cases "net (client_Timeout fl) (URL ep)")
  case (Got resp)
  from checkEndpoint_Got [of net fl ep resp d w] Got assms show ?thesis
    by auto
next
  case (Failed err x)
  from checkEndpoint_Failed [of net fl ep err x d w] Failed assms show ?thesis
    by auto
qed

theorem checkEndpoint_status_error_exclusive_witness:
  "checkEndpoint (synthetic 204) default_flags github 5 world0 =
     (\<lparr>Endpoint = github, IsHealthy = True, StatusCode = 204, Duration = 5, Error = None\<rparr>,
      \<lparr>now = 1005, open_bodies = {}\<rparr>)
   \<and> synthetic 204 (client_Timeout default_flags) (URL github) =
       Got \<lparr>RespStatusCode = 204, RespBody = 7\<rparr>
   \<and> (StatusCode (fst (checkEndpoint (synthetic 204) default_flags github 5 world0)) \<noteq> 0)
       \<noteq> (Error (fst (checkEndpoint (synthetic 204) default_flags github 5 world0)) \<noteq> None)"
proof -
  have run: "checkEndpoint (synthetic 204) default_flags github 5 world0 =
     (\<lparr>Endpoint = github, IsHealthy = True, StatusCode = 204, Duration = 5, Error = None\<rparr>,
      \<lparr>now = 1005, open_bodies = {}\<rparr>)"
    by (simp add: checkEndpoint_synthetic)
  have hyp: "\<forall>resp. synthetic 204 (client_Timeout default_flags) (URL github) = Got resp
         \<longrightarrow> RespStatusCode resp \<noteq> 0"
    by (auto simp: synthetic_Got)
  from checkEndpoint_status_error_exclusive [OF run] hyp run show ?thesis
    by (simp add: synthetic_Got)
qed

text \<open>
  Claim C3: whenever a response is received, \<open>checkEndpoint\<close> records the response's
  status code, sets \<open>IsHealthy\<close> to \<open>200 \<le> StatusCode < 400\<close> and leaves \<open>Error\<close>
  empty; for status 404 the outcome is unhealthy with status 404 and no error, for status
  204 it is healthy with status 204.
\<close>

theorem checkEndpoint_response_classified:
  assumes "net (client_Timeout fl) (URL ep) = Got resp"
    and "checkEndpoint net fl ep d w = (r, w')"
  shows "StatusCode r = RespStatusCode resp
    \<and> IsHealthy r = (200 \<le> StatusCode r \<and> StatusCode r < 400)
    \<and> Error r = None
    \<and> Endpoint r = ep
    \<and> (RespStatusCode resp = 404 \<longrightarrow> \<not> IsHealthy r \<and> StatusCode r = 404 \<and> Error r = None)
    \<and> (RespStatusCode resp = 204 \<longrightarrow> IsHealthy r \<and> StatusCode r = 204)"
  using checkEndpoint_Got [of net fl ep resp d w] assms by auto

theorem checkEndpoint_response_classified_witness:
  "synthetic 404 (client_Timeout default_flags) (URL github) = Got \<lparr>RespStatusCode = 404, RespBody = 7\<rparr>
   \<and> fst (checkEndpoint (synthetic 404) default_flags github 5 world0) =
       \<lparr>Endpoint = github, IsHealthy = False, StatusCode = 404, Duration = 5, Error = None\<rparr>
   \<and> synthetic 204 (client_Timeout default_flags) (URL github) = Got \<lparr>RespStatusCode = 204, RespBody = 7\<rparr>
   \<and> fst (checkEndpoint (synthetic 204) default_flags github 5 world0) =
       \<lparr>Endpoint = github, IsHealthy = True, StatusCode = 204, Duration = 5, Error = None\<rparr>"
proof -
  let ?r404 = "\<lparr>Endpoint = github, IsHealthy = False, StatusCode = 404, Duration = 5, Error = None\<rparr>"
  let ?r204 = "\<lparr>Endpoint = github, IsHealthy = True, StatusCode = 204, Duration = 5, Error = None\<rparr>"
  let ?w = "\<lparr>now = 1005, open_bodies = {}\<rparr>"
  have g404: "synthetic 404 (client_Timeout default_flags) (URL github) = Got \<lparr>RespStatusCode = 404, RespBody = 7\<rparr>"
    by (rule synthetic_Got)
  have g204: "synthetic 204 (client_Timeout default_flags) (URL github) = Got \<lparr>RespStatusCode = 204, RespBody = 7\<rparr>"
    by (rule synthetic_Got)
  have c404: "checkEndpoint (synthetic 404) default_flags github 5 world0 = (?r404, ?w)"
    by (simp add: checkEndpoint_synthetic)
  have c204: "checkEndpoint (synthetic 204) default_flags github 5 world0 = (?r204, ?w)"
    by (simp add: checkEndpoint_synthetic)
  from checkEndpoint_response_classified [of "synthetic 404" default_flags github _ 5 world0, OF g404 c404]
    checkEndpoint_response_classified [of "synthetic 204" default_flags github _ 5 world0, OF g204 c204]
    g404 g204 c404 c204
  show ?thesis by simp
qed

text \<open>
  Claim C4: when the request fails, \<open>checkEndpoint\<close> returns a result (it has no
  other way out) with the failure in \<open>Error\<close>, \<open>StatusCode\<close> zero and \<open>IsHealthy\<close>
  false.
\<close>

theorem checkEndpoint_failure_recorded:
  assumes "net (client_Timeout fl) (URL ep) = Failed err x"
  shows "\<exists>r w'. checkEndpoint net fl ep d w = (r, w')
    \<and> Error r = Some err \<and> StatusCode r = 0 \<and> \<not> IsHealthy r \<and> Endpoint r = ep"
  using checkEndpoint_Failed [of net fl ep err x d w] assms by simp

theorem checkEndpoint_failure_recorded_witness:
  "refusing (client_Timeout default_flags) (URL github) = Failed ''connection refused'' None
   \<and> (\<exists>r w'. checkEndpoint refusing default_flags github 5 world0 = (r, w')
    \<and> Error r = Some ''connection refused'' \<and> StatusCode r = 0 \<and> \<not> IsHealthy r
    \<and> Endpoint r = github)"
proof -
  have f: "refusing (client_Timeout default_flags) (URL github) = Failed ''connection refused'' None"
    by (rule refusing_Failed)
  from checkEndpoint_failure_recorded [of refusing default_flags github
      "''connection refused''" None 5 world0] f show ?thesis
    by simp
qed

text \<open>
  Claim C5: on both exit paths the \<open>Duration\<close> of the result is the time elapsed on
  the clock between the start of the call and the return of the request (at most
  \<open>maxDuration\<close>, where \<^verbatim>\<open>Time.Sub\<close> saturates); the same holds when other goroutines
  run in between.
\<close>

theorem checkEndpoint_duration:
  "Duration (fst (checkEndpoint net fl ep d w)) = min (int d) maxDuration
   \<and> now (snd (checkEndpoint net fl ep d w)) - now w = int d
   \<and> Duration (fst (checkEndpoint_leave net fr w)) = time_Sub (now w) (fr_start fr)"
proof (cases "net (client_Timeout fl) (URL ep)")
  case (Got resp)
  from checkEndpoint_Got [of net fl ep resp d w] Got show ?thesis
    by (simp add: checkEndpoint_leave_Duration)
next
  case (Failed err x)
  from checkEndpoint_Failed [of net fl ep err x d w] Failed show ?thesis
    by (simp add: checkEndpoint_leave_Duration)
qed

text \<open>
  Claim C8: when \<open>checkEndpoint\<close> returns, the body of the response it received is
  not open, and no body is open that was not open before the call; on a transport error
  there is no open body to release.
\<close>

theorem checkEndpoint_body_closed:
  "open_bodies (snd (checkEndpoint net fl ep d w)) \<subseteq> open_bodies w
   \<and> (\<forall>resp. net (client_Timeout fl) (URL ep) = Got resp
        \<longrightarrow> RespBody resp \<notin> open_bodies (snd (checkEndpoint net fl ep d w)))"
proof (cases "net (client_Timeout fl) (URL ep)")
  case (Got resp)
  from checkEndpoint_Got [of net fl ep resp d w] Got show ?thesis by auto
next
  case (Failed err x)
  from checkEndpoint_Failed [of net fl ep err x d w] Failed show ?thesis by simp
qed

theorem checkEndpoint_body_closed_witness:
  "synthetic 200 (client_Timeout default_flags) (URL github) = Got \<lparr>RespStatusCode = 200, RespBody = 7\<rparr>
   \<and> open_bodies (snd (checkEndpoint (synthetic 200) default_flags github 5
        \<lparr>now = 0, open_bodies = {3}\<rparr>)) \<subseteq> {3}
   \<and> 7 \<notin> open_bodies (snd (checkEndpoint (synthetic 200) default_flags github 5
        \<lparr>now = 0, open_bodies = {3}\<rparr>))"
proof -
  have g: "synthetic 200 (client_Timeout default_flags) (URL github) = Got \<lparr>RespStatusCode = 200, RespBody = 7\<rparr>"
    by (rule synthetic_Got)
  from checkEndpoint_body_closed [of "synthetic 200" default_flags github 5 "\<lparr>now = 0, open_bodies = {3}\<rparr>"] g
  show ?thesis by simp
qed

section \<open>Properties of the endpoint list\<close>

lemma custom_endpoints_append:
  "custom_endpoints i us acc =
     acc @ map (\<lambda>(k, u). \<lparr>Name = ''Custom-'' @ decimal (k + 1), URL = u\<rparr>) (enumerate i us)"
  by (induction us arbitrary: i acc) simp_all

lemma custom_endpoints_length: "length (custom_endpoints i us acc) = length acc + length us"
  by (simp add: custom_endpoints_append)

lemma custom_endpoints_nth:
  "k < length us \<Longrightarrow>
   custom_endpoints 0 us [] ! k = \<lparr>Name = ''Custom-'' @ decimal (k + 1), URL = us ! k\<rparr>"
  by (simp add: custom_endpoints_append nth_enumerate_eq)

lemma digit_value_digit: "d < 10 \<Longrightarrow> digit_value (digit d) = d"
  by (simp add: digit_value_def digit_def)

lemma parse_decimal_decimal: "parse_decimal (decimal n) = n"
proof (induction n rule: decimal.induct)
  case (1 n)
  show ?case
  proof (cases "n < 10")
    case True
    then show ?thesis
      by (subst decimal.simps) (simp add: parse_decimal_def digit_value_digit)
  next
    case False
    with 1 have "parse_decimal (decimal (n div 10)) = n div 10" by simp
    with False show ?thesis
      by (subst decimal.simps) (simp add: parse_decimal_def digit_value_digit)
  qed
qed

lemma decimal_inj: "decimal m = decimal n \<Longrightarrow> m = n"
  by (metis parse_decimal_decimal)

text \<open>
  Claim C9: with \<open>N \<ge> 1\<close> URLs given, the endpoint list has \<open>N\<close> entries, the
  \<open>i\<close>-th named \<^verbatim>\<open>Custom-\<close> followed by the decimal digits of \<open>i + 1\<close> (a non-empty
  name; the digits read back as \<open>i + 1\<close>) and carrying the \<open>i\<close>-th URL; with no URL given the list is the three built-in
  endpoints; the list is never empty.
\<close>

theorem build_endpoints_custom_or_default:
  "(us \<noteq> [] \<longrightarrow>
      length (build_endpoints us) = length us
      \<and> (\<forall>i < length us.
            Name (build_endpoints us ! i) = ''Custom-'' @ decimal (i + 1)
            \<and> parse_decimal (drop 7 (Name (build_endpoints us ! i))) = i + 1
            \<and> Name (build_endpoints us ! i) \<noteq> []
            \<and> URL (build_endpoints us ! i) = us ! i))
   \<and> (us = [] \<longrightarrow> build_endpoints us = default_endpoints)
   \<and> map Name default_endpoints = [''Github API'', ''JSONPlaceholder'', ''Dog Breeds API'']
   \<and> build_endpoints us \<noteq> []"
proof (cases us)
  case Nil
  then show ?thesis by (simp add: build_endpoints_def default_endpoints_def)
next
  case (Cons u rest)
  have "length (build_endpoints us) = length us"
    using Cons by (simp add: build_endpoints_def custom_endpoints_length)
  moreover have "\<forall>i < length us. build_endpoints us ! i =
      \<lparr>Name = ''Custom-'' @ decimal (i + 1), URL = us ! i\<rparr>"
    using Cons custom_endpoints_nth [of _ us] by (simp add: build_endpoints_def)
  ultimately show ?thesis
    using Cons by (auto simp: default_endpoints_def parse_decimal_decimal)
qed

theorem build_endpoints_custom_or_default_witness:
  "[''https://a.example'', ''https://b.example''] \<noteq> []
   \<and> build_endpoints [''https://a.example'', ''https://b.example''] =
       [\<lparr>Name = ''Custom-1'', URL = ''https://a.example''\<rparr>,
        \<lparr>Name = ''Custom-2'', URL = ''https://b.example''\<rparr>]
   \<and> (1::nat) < length [''https://a.example'', ''https://b.example'']
   \<and> Name (build_endpoints [''https://a.example'', ''https://b.example''] ! 1) = ''Custom-2''
   \<and> build_endpoints [] = default_endpoints"
proof -
  let ?us = "[''https://a.example'', ''https://b.example'']"
  have d: "decimal (Suc 0) = ''1''" "decimal (Suc (Suc 0)) = ''2''"
    by code_simp+
  have built: "build_endpoints ?us =
       [\<lparr>Name = ''Custom-1'', URL = ''https://a.example''\<rparr>,
        \<lparr>Name = ''Custom-2'', URL = ''https://b.example''\<rparr>]"
    by (simp add: build_endpoints_def d)
  have ne: "?us \<noteq> []" and lt: "(1::nat) < length ?us"
    by simp_all
  from build_endpoints_custom_or_default [of ?us] ne lt
  have "Name (build_endpoints ?us ! 1) = ''Custom-'' @ decimal (1 + 1)"
    by blast
  moreover from build_endpoints_custom_or_default [of "[]"]
  have "build_endpoints [] = default_endpoints"
    by blast
  ultimately show ?thesis
    using built ne lt by (simp add: d)
qed

section \<open>Properties of runCheck\<close>

subsection \<open>Lists of goroutines\<close>

lemma pending_append [simp]: "pending (gs @ hs) = pending gs + pending hs"
  by (simp add: pending_def)

lemma pending_Nil [simp]: "pending [] = 0"
  by (simp add: pending_def)

lemma pending_single [simp]: "pending [g] = (if exited (snd g) then 0 else 1)"
  by (simp add: pending_def)

lemma pending_update_same:
  "i < length gs \<Longrightarrow> exited (snd g) = exited (snd (gs ! i)) \<Longrightarrow> pending (gs[i := g]) = pending gs"
  unfolding pending_def
  by (induction gs arbitrary: i) (auto split: nat.splits)

lemma pending_update_exit:
  "i < length gs \<Longrightarrow> \<not> exited (snd (gs ! i)) \<Longrightarrow> exited (snd g) \<Longrightarrow>
   Suc (pending (gs[i := g])) = pending gs"
  unfolding pending_def
  by (induction gs arbitrary: i) (auto split: nat.splits)

lemma pending_zero_iff: "pending gs = 0 \<longleftrightarrow> list_all (exited \<circ> snd) gs"
  unfolding pending_def
  by (induction gs) auto

lemma pending_pos:
  assumes "i < length gs" and "\<not> exited (snd (gs ! i))"
  shows "0 < pending gs"
proof (rule ccontr)
  assume "\<not> 0 < pending gs"
  then have "pending gs = 0"
    by simp
  then have "list_all (exited \<circ> snd) gs"
    by (simp add: pending_zero_iff)
  with assms show False
    by (simp add: list_all_length)
qed

lemma pending_pos_ex:
  assumes "0 < pending gs"
  shows "\<exists>i < length gs. \<not> exited (snd (gs ! i))"
proof (rule ccontr)
  assume "\<not> (\<exists>i < length gs. \<not> exited (snd (gs ! i)))"
  then have "list_all (exited \<circ> snd) gs"
    by (simp add: list_all_length)
  then have "pending gs = 0"
    by (simp add: pending_zero_iff)
  with assms show False
    by simp
qed

lemma printed_results_append [simp]:
  "printed_results (gs @ hs) = printed_results gs @ printed_results hs"
  by (induction gs) (auto split: option.splits)

lemma printed_results_update_same:
  "i < length gs \<Longrightarrow> printed pc = printed (snd (gs ! i)) \<Longrightarrow>
   printed_results (gs[i := (ep, pc)]) = printed_results gs"
  by (induction gs arbitrary: i) (auto split: nat.splits option.splits)

lemma printed_results_update_new:
  "i < length gs \<Longrightarrow> printed (snd (gs ! i)) = None \<Longrightarrow> printed pc = Some r \<Longrightarrow>
   mset (printed_results (gs[i := (ep, pc)])) = add_mset r (mset (printed_results gs))"
  by (induction gs arbitrary: i) (auto split: nat.splits option.splits)

lemma reports_append [simp]: "reports (out @ out') = reports out @ reports out'"
  by (induction out rule: reports.induct) simp_all

lemma todo_update:
  "i < length gs \<Longrightarrow> g_todo (snd (gs ! i)) = Suc (g_todo pc) \<Longrightarrow>
   Suc (sum_list (map (g_todo \<circ> snd) (gs[i := (ep, pc)]))) = sum_list (map (g_todo \<circ> snd) gs)"
  by (induction gs arbitrary: i) (auto split: nat.splits)

subsection \<open>The invariant\<close>

lemma invariant_tick: "invariant nets s \<Longrightarrow> invariant nets (s\<lparr>env := w\<rparr>)"
  by (simp add: invariant_def)

lemma invariant_main_step:
  assumes "invariant nets s"
  shows "invariant nets (main_step s)"
proof (cases "main s")
  case M_prologue
  with assms show ?thesis
    by (simp add: main_step_def invariant_def)
next
  case M_start
  with assms show ?thesis
    by (simp add: main_step_def invariant_def)
next
  case M_build
  with assms show ?thesis
    by (simp add: main_step_def invariant_def)
next
  case (M_loop k)
  with assms show ?thesis
    by (simp add: main_step_def invariant_def WaitGroup_Add_def)
next
  case (M_go k ep)
  with assms show ?thesis
    by (auto simp: main_step_def invariant_def nth_append g_ok_def less_Suc_eq)
next
  case M_wait
  with assms show ?thesis
    by (simp add: main_step_def invariant_def)
next
  case M_epilogue
  with assms show ?thesis
    by (simp add: main_step_def invariant_def)
next
  case M_done
  with assms show ?thesis
    by (simp add: main_step_def)
qed

lemma checkEndpoint_leave_outcome:
  "outcome_of (net (fr_Timeout fr) (URL (fr_endpoint fr))) (fr_endpoint fr)
     (fst (checkEndpoint_leave net fr w))"
  by (simp add: checkEndpoint_leave_def client_Get_def outcome_of_def
      split: get_result.splits)

lemma invariant_go_step:
  assumes "invariant nets s"
  shows "invariant nets (go_step nets i s)"
proof (cases "i < length (goroutines s)")
  case False
  with assms show ?thesis by (simp add: go_step_def)
next
  case True
  obtain ep pc where g: "goroutines s ! i = (ep, pc)"
    by (cases "goroutines s ! i")
  from assms True g have ep: "ep = endpoints s ! i"
    and ok: "g_ok (nets i) (globals s) (endpoints s ! i) pc"
    by (auto simp: invariant_def)
  show ?thesis
  proof (cases pc)
    case G_call
    with assms True g show ?thesis
      by (cases "main s")
        (auto simp: go_step_def invariant_def nth_list_update g_ok_def checkEndpoint_enter_def
          pending_update_same printed_results_update_same)
  next
    case (G_get fr)
    obtain r w where leave: "checkEndpoint_leave (nets i) fr (env s) = (r, w)"
      by (cases "checkEndpoint_leave (nets i) fr (env s)")
    from ok G_get ep have "outcome_of (nets i (client_Timeout (globals s)) (URL ep)) ep r"
      using checkEndpoint_leave_outcome [of "nets i" fr "env s"] leave
      by (simp add: g_ok_def)
    with assms True g G_get leave ep show ?thesis
      by (cases "main s")
        (auto simp: go_step_def invariant_def nth_list_update g_ok_def
          pending_update_same printed_results_update_same)
  next
    case (G_print r)
    with assms True g show ?thesis
      by (cases "main s")
        (auto simp: go_step_def invariant_def nth_list_update g_ok_def
          pending_update_same printed_results_update_new)
  next
    case (G_defer r)
    from True g G_defer have live: "\<not> exited (snd (goroutines s ! i))"
      by simp
    from pending_pos [OF True live] have pos: "0 < pending (goroutines s)" .
    from pending_update_exit [OF True live, of "(ep, G_exit r)"]
    have dec: "Suc (pending ((goroutines s)[i := (ep, G_exit r)])) = pending (goroutines s)"
      by simp
    from assms have main: "main s = M_epilogue \<or> main s = M_done \<Longrightarrow> False"
      using pos by (auto simp: invariant_def)
    from assms True g G_defer pos dec main show ?thesis
      by (cases "main s")
        (auto simp: go_step_def invariant_def nth_list_update g_ok_def WaitGroup_Add_def
          printed_results_update_same)
  next
    case (G_exit r)
    with assms True g show ?thesis
      by (simp add: go_step_def)
  qed
qed

lemma invariant_step: "invariant nets s \<Longrightarrow> invariant nets (step nets e s)"
  by (cases e) (simp_all add: step_def invariant_tick invariant_main_step invariant_go_step)

lemma invariant_run: "invariant nets s \<Longrightarrow> invariant nets (run nets es s)"
  by (induction es arbitrary: s) (simp_all add: invariant_step)

lemma invariant_initial: "invariant nets (initial fl w)"
  by (simp add: invariant_def initial_def)

lemma invariant_dispatch: "invariant nets (dispatch fl w eps)"
  by (simp add: invariant_def dispatch_def)

subsection \<open>Fields that a step leaves alone\<close>

lemma globals_main_step [simp]: "globals (main_step s) = globals s"
  by (cases "main s") (simp_all add: main_step_def split: option.splits)

lemma globals_go_step [simp]: "globals (go_step nets i s) = globals s"
  by (simp add: go_step_def split: prod.splits g_pc.splits option.splits)

lemma globals_step [simp]: "globals (step nets e s) = globals s"
  by (cases e) (simp_all add: step_def)

lemma globals_run [simp]: "globals (run nets es s) = globals s"
  by (induction es arbitrary: s) simp_all

lemma main_go_step [simp]: "main (go_step nets i s) = main s"
  by (simp add: go_step_def split: prod.splits g_pc.splits option.splits)

lemma endpoints_go_step [simp]: "endpoints (go_step nets i s) = endpoints s"
  by (simp add: go_step_def split: prod.splits g_pc.splits option.splits)

subsection \<open>Steps consume the measure\<close>

lemma todo_main_step:
  assumes "invariant nets s"
  shows "main_step s = s \<or> Suc (todo (main_step s)) = todo s"
proof (cases "main s")
  case M_prologue
  then show ?thesis by (simp add: main_step_def todo_def)
next
  case M_start
  then show ?thesis by (simp add: main_step_def todo_def)
next
  case M_build
  then show ?thesis by (simp add: main_step_def todo_def)
next
  case (M_loop k)
  with assms show ?thesis
    by (auto simp: main_step_def todo_def invariant_def WaitGroup_Add_def)
next
  case (M_go k ep)
  with assms show ?thesis
    by (auto simp: main_step_def todo_def invariant_def)
next
  case M_wait
  then show ?thesis by (simp add: main_step_def todo_def)
next
  case M_epilogue
  then show ?thesis by (simp add: main_step_def todo_def)
next
  case M_done
  then show ?thesis by (simp add: main_step_def)
qed

lemma todo_go_step:
  assumes "invariant nets s" and "i < length (goroutines s)" and "\<not> exited (snd (goroutines s ! i))"
  shows "Suc (todo (go_step nets i s)) = todo s"
proof -
  obtain ep pc where g: "goroutines s ! i = (ep, pc)"
    by (cases "goroutines s ! i")
  from pending_pos [OF assms(2,3)] have pos: "0 < pending (goroutines s)" .
  from assms(1) pos have wg: "0 < wg s"
    by (cases "main s") (auto simp: invariant_def)
  show ?thesis
  proof (cases pc)
    case G_call
    with assms g todo_update [of i "goroutines s" "G_get (checkEndpoint_enter (globals s) ep (env s))" ep]
    show ?thesis
      by (simp add: go_step_def todo_def)
  next
    case (G_get fr)
    obtain r w where leave: "checkEndpoint_leave (nets i) fr (env s) = (r, w)"
      by (cases "checkEndpoint_leave (nets i) fr (env s)")
    with G_get assms g todo_update [of i "goroutines s" "G_print r" ep]
    show ?thesis
      by (simp add: go_step_def todo_def)
  next
    case (G_print r)
    with assms g todo_update [of i "goroutines s" "G_defer r" ep]
    show ?thesis
      by (simp add: go_step_def todo_def)
  next
    case (G_defer r)
    with assms g wg todo_update [of i "goroutines s" "G_exit r" ep]
    show ?thesis
      by (simp add: go_step_def todo_def WaitGroup_Add_def)
  next
    case (G_exit r)
    with assms g show ?thesis by simp
  qed
qed

lemma go_step_idle:
  "\<not> (i < length (goroutines s) \<and> \<not> exited (snd (goroutines s ! i))) \<Longrightarrow> go_step nets i s = s"
  by (auto simp: go_step_def split: prod.splits g_pc.splits)

lemma todo_step:
  assumes "invariant nets s"
  shows "step nets e s = s \<or> (\<exists>d. e = Tick d) \<or> Suc (todo (step nets e s)) = todo s"
proof (cases e)
  case (Tick d)
  then show ?thesis by simp
next
  case Main
  with assms todo_main_step [OF assms] show ?thesis
    by (auto simp: step_def)
next
  case (Go i)
  show ?thesis
  proof (cases "i < length (goroutines s) \<and> \<not> exited (snd (goroutines s ! i))")
    case True
    with assms todo_go_step [of nets s i] Go show ?thesis
      by (simp add: step_def invariant_def)
  next
    case False
    with Go go_step_idle [of i s nets] show ?thesis
      by (simp add: step_def)
  qed
qed

lemma progress:
  assumes "invariant nets s" and "main s \<noteq> M_done"
  shows "\<exists>e \<in> set (thread_events s). Suc (todo (step nets e s)) = todo s"
proof (cases "main s = M_wait \<and> wg s \<noteq> 0")
  case True
  with assms have "0 < pending (goroutines s)"
    by (auto simp: invariant_def)
  from pending_pos_ex [OF this] obtain i where
    i: "i < length (goroutines s)" "\<not> exited (snd (goroutines s ! i))"
    by blast
  from assms(1) have "\<not> panicked s" by (simp add: invariant_def)
  with todo_go_step [OF assms(1) i] have "Suc (todo (step nets (Go i) s)) = todo s"
    by (simp add: step_def)
  moreover from i have "Go i \<in> set (thread_events s)"
    by (simp add: thread_events_def)
  ultimately show ?thesis by blast
next
  case False
  from assms(1) have np: "\<not> panicked s" by (simp add: invariant_def)
  have "main_step s \<noteq> s"
  proof
    assume eq: "main_step s = s"
    then have "main (main_step s) = main s" by simp
    with assms False show False
      by (cases "main s")
        (auto simp: main_step_def invariant_def WaitGroup_Add_def split: if_splits)
  qed
  with todo_main_step [OF assms(1)] np have "Suc (todo (step nets Main s)) = todo s"
    by (simp add: step_def)
  then show ?thesis
    by (auto simp: thread_events_def)
qed

lemma can_complete:
  assumes "invariant nets s"
  shows "\<exists>es. main (run nets es s) = M_done \<and> length es \<le> todo s"
  using assms
proof (induction "todo s" arbitrary: s rule: less_induct)
  case less
  show ?case
  proof (cases "main s = M_done")
    case True
    then have "main (run nets [] s) = M_done \<and> length ([] :: event list) \<le> todo s" by simp
    then show ?thesis by blast
  next
    case False
    from progress [OF less.prems False] obtain e where
      e: "Suc (todo (step nets e s)) = todo s" by blast
    then have "todo (step nets e s) < todo s" by simp
    from less.hyps [OF this invariant_step [OF less.prems]]
    obtain es where "main (run nets es (step nets e s)) = M_done"
      and "length es \<le> todo (step nets e s)" by blast
    with e have "main (run nets (e # es) s) = M_done \<and> length (e # es) \<le> todo s"
      by simp
    then show ?thesis by blast
  qed
qed

subsection \<open>Past the barrier\<close>

lemma printed_results_exited:
  assumes "list_all (exited \<circ> snd) gs"
    and "\<forall>g \<in> set gs. \<forall>r. printed (snd g) = Some r \<longrightarrow> Endpoint r = fst g"
  shows "map Endpoint (printed_results gs) = map fst gs"
  using assms
proof (induction gs)
  case Nil
  then show ?case by simp
next
  case (Cons g gs)
  obtain ep pc where g: "g = (ep, pc)" by (cases g)
  with Cons.prems obtain r where pc: "pc = G_exit r"
    by (cases pc) simp_all
  with Cons g show ?case by simp
qed

lemma g_ok_printed:
  "g_ok net fl ep pc \<Longrightarrow> result_of pc = Some r \<Longrightarrow> outcome_of (net (client_Timeout fl) (URL ep)) ep r"
  by (cases pc) (simp_all add: g_ok_def)

lemma printed_result_of: "printed pc = Some r \<Longrightarrow> result_of pc = Some r"
  by (cases pc) simp_all

lemma invariant_fst: "invariant nets s \<Longrightarrow> map fst (goroutines s) = take (length (goroutines s)) (endpoints s)"
proof -
  assume i: "invariant nets s"
  then have le: "length (goroutines s) \<le> length (endpoints s)"
    by (cases "main s") (simp_all add: invariant_def)
  with i show ?thesis
    by (auto simp: invariant_def list_eq_iff_nth_eq)
qed

lemma invariant_barrier:
  assumes "invariant nets s" and "past_barrier s"
  shows "length (goroutines s) = length (endpoints s)"
    and "list_all (exited \<circ> snd) (goroutines s)"
    and "map fst (goroutines s) = endpoints s"
    and "map Endpoint (printed_results (goroutines s)) = endpoints s"
proof -
  from assms show len: "length (goroutines s) = length (endpoints s)"
    by (auto simp: invariant_def past_barrier_def)
  from assms show ex: "list_all (exited \<circ> snd) (goroutines s)"
    by (auto simp: invariant_def past_barrier_def pending_zero_iff)
  from invariant_fst [OF assms(1)] len show fst: "map fst (goroutines s) = endpoints s"
    by simp
  have "\<forall>g \<in> set (goroutines s). \<forall>r. printed (snd g) = Some r \<longrightarrow> Endpoint r = fst g"
  proof (intro ballI allI impI)
    fix g r
    assume "g \<in> set (goroutines s)" and p: "printed (snd g) = Some r"
    then obtain i where i: "i < length (goroutines s)" and g: "goroutines s ! i = g"
      by (auto simp: in_set_conv_nth)
    with assms(1) have "fst g = endpoints s ! i"
      and "g_ok (nets i) (globals s) (endpoints s ! i) (snd g)"
      by (auto simp: invariant_def)
    with g_ok_printed [OF this(2) printed_result_of [OF p]] show "Endpoint r = fst g"
      by (simp add: outcome_of_def)
  qed
  from printed_results_exited [OF ex this] fst
  show "map Endpoint (printed_results (goroutines s)) = endpoints s"
    by simp
qed

lemma step_after_loop:
  assumes "\<not> before_loop (main s)"
  shows "\<not> before_loop (main (step nets e s)) \<and> endpoints (step nets e s) = endpoints s"
proof (cases e)
  case (Tick d)
  with assms show ?thesis by (simp add: step_def)
next
  case Main
  with assms show ?thesis
    by (cases "main s") (simp_all add: step_def main_step_def split: option.splits)
next
  case (Go i)
  with assms show ?thesis by (simp add: step_def)
qed

lemma run_after_loop:
  "\<not> before_loop (main s) \<Longrightarrow> endpoints (run nets es s) = endpoints s"
proof (induction es arbitrary: s)
  case Nil
  then show ?case by simp
next
  case (Cons e es)
  from step_after_loop [OF Cons.prems, of nets e] Cons.IH [of "step nets e s"] show ?case
    by simp
qed

lemma endpoints_run_dispatch [simp]: "endpoints (run nets es (dispatch fl w eps)) = eps"
  using run_after_loop [of "dispatch fl w eps" nets es] by (simp add: dispatch_def)

lemma printed_results_length: "length (printed_results gs) \<le> length gs"
  by (induction gs rule: printed_results.induct) (auto split: option.splits)

text \<open>
  Claim C2: for every list of \<open>N\<close> endpoints, every transport and every schedule, once
  the main goroutine is past \<^verbatim>\<open>wg.Wait()\<close> exactly \<open>N\<close> goroutines have been started, one
  per endpoint in input order, all have exited, and exactly \<open>N\<close> results have been
  printed, whose endpoints are the input endpoints as a multiset (none dropped, none
  duplicated). The program does not panic, at no time are there more results than
  goroutines or more goroutines than endpoints, and the run always completes: while the
  main goroutine has not returned some goroutine can take a step, every step of a goroutine
  uses up one of the \<open>6 N + 3\<close> steps there are, and from every reachable state the end
  is reached within the steps that remain.
\<close>

theorem dispatch_one_outcome_per_endpoint:
  assumes "s = run nets es (dispatch fl w eps)"
  shows "(past_barrier s \<longrightarrow>
            length (goroutines s) = length eps
          \<and> map fst (goroutines s) = eps
          \<and> list_all (exited \<circ> snd) (goroutines s)
          \<and> length (reports (stdout s)) = length eps
          \<and> mset (map Endpoint (reports (stdout s))) = mset eps)
       \<and> \<not> panicked s
       \<and> length (reports (stdout s)) \<le> length (goroutines s)
       \<and> length (goroutines s) \<le> length eps
       \<and> (main s \<noteq> M_done \<longrightarrow>
            (\<exists>e \<in> set (thread_events s). Suc (todo (step nets e s)) = todo s))
       \<and> (step nets e s = s \<or> (\<exists>d. e = Tick d) \<or> Suc (todo (step nets e s)) = todo s)
       \<and> (\<exists>es'. main (run nets es' s) = M_done \<and> length es' \<le> todo s)
       \<and> todo (dispatch fl w eps) = 6 * length eps + 3"
proof -
  from assms have i: "invariant nets s"
    by (simp add: invariant_run invariant_dispatch)
  from assms have eps: "endpoints s = eps"
    by simp
  from i have m: "mset (reports (stdout s)) = mset (printed_results (goroutines s))"
    by (simp add: invariant_def)
  then have len: "length (reports (stdout s)) = length (printed_results (goroutines s))"
    by (metis size_mset)
  have barrier: "past_barrier s \<longrightarrow>
            length (goroutines s) = length eps
          \<and> map fst (goroutines s) = eps
          \<and> list_all (exited \<circ> snd) (goroutines s)
          \<and> length (reports (stdout s)) = length eps
          \<and> mset (map Endpoint (reports (stdout s))) = mset eps"
  proof
    assume pb: "past_barrier s"
    note b = invariant_barrier [OF i pb]
    from b(4) have "length (printed_results (goroutines s)) = length (endpoints s)"
      by (metis length_map)
    moreover have "mset (map Endpoint (reports (stdout s))) = mset (endpoints s)"
      using m b(4) by (metis mset_map)
    ultimately show "length (goroutines s) = length eps
          \<and> map fst (goroutines s) = eps
          \<and> list_all (exited \<circ> snd) (goroutines s)
          \<and> length (reports (stdout s)) = length eps
          \<and> mset (map Endpoint (reports (stdout s))) = mset eps"
      using b len eps by simp
  qed
  have pl: "length (reports (stdout s)) \<le> length (goroutines s)"
    using len printed_results_length [of "goroutines s"] by simp
  from i eps have gl: "length (goroutines s) \<le> length eps"
    by (cases "main s") (auto simp: invariant_def)
  from i have np: "\<not> panicked s"
    by (simp add: invariant_def)
  have t0: "todo (dispatch fl w eps) = 6 * length eps + 3"
    by (simp add: todo_def dispatch_def)
  from barrier np pl gl progress [OF i] todo_step [OF i, of e] can_complete [OF i] t0
  show ?thesis
    by blast
qed

theorem dispatch_one_outcome_per_endpoint_witness:
  "past_barrier (run mixed_nets schedule3 (dispatch default_flags world0 default_endpoints))
   \<and> length (reports (stdout
        (run mixed_nets schedule3 (dispatch default_flags world0 default_endpoints)))) = 3
   \<and> mset (map Endpoint (reports (stdout
        (run mixed_nets schedule3 (dispatch default_flags world0 default_endpoints)))))
       = mset default_endpoints
   \<and> main (run mixed_nets [Main, Main] (dispatch default_flags world0 default_endpoints))
       \<noteq> M_done
   \<and> (\<exists>e \<in> set (thread_events
          (run mixed_nets [Main, Main] (dispatch default_flags world0 default_endpoints))).
        Suc (todo (step mixed_nets e
          (run mixed_nets [Main, Main] (dispatch default_flags world0 default_endpoints))))
        = todo (run mixed_nets [Main, Main] (dispatch default_flags world0 default_endpoints)))"
proof -
  have pb: "past_barrier
      (run mixed_nets schedule3 (dispatch default_flags world0 default_endpoints))"
    by code_simp
  have nd: "main (run mixed_nets [Main, Main] (dispatch default_flags world0 default_endpoints))
       \<noteq> M_done"
    by code_simp
  have n: "length default_endpoints = 3"
    by (simp add: default_endpoints_def)
  from dispatch_one_outcome_per_endpoint
    [where nets = mixed_nets and es = schedule3 and fl = default_flags and w = world0
      and eps = default_endpoints, OF refl]
    dispatch_one_outcome_per_endpoint
    [where nets = mixed_nets and es = "[Main, Main]" and fl = default_flags and w = world0
      and eps = default_endpoints, OF refl]
    pb nd n
  show ?thesis
    by simp
qed

subsection \<open>runCheck\<close>

lemma built_step: "built s \<Longrightarrow> built (step nets e s)"
proof (cases "before_loop (main s)")
  case True
  then show ?thesis
    by (cases e; cases "main s") (simp_all add: built_def step_def main_step_def)
next
  case False
  assume "built s"
  with False step_after_loop [OF False, of nets e] show ?thesis
    by (simp add: built_def)
qed

lemma built_run: "built s \<Longrightarrow> built (run nets es s)"
  by (induction es arbitrary: s) (simp_all add: built_step)

lemma built_initial: "built (initial fl w)"
  by (simp add: built_def initial_def)

lemma wait_blocks:
  assumes "invariant nets s" and "main s = M_wait"
  shows "\<not> list_all (exited \<circ> snd) (goroutines s) \<Longrightarrow> step nets Main s = s"
    and "list_all (exited \<circ> snd) (goroutines s) \<Longrightarrow> main (step nets Main s) = M_epilogue"
proof -
  from assms have wg: "wg s = int (pending (goroutines s))" and np: "\<not> panicked s"
    by (simp_all add: invariant_def)
  show "step nets Main s = s" if "\<not> list_all (exited \<circ> snd) (goroutines s)"
    using that wg assms(2) by (simp add: step_def main_step_def pending_zero_iff [symmetric])
  show "main (step nets Main s) = M_epilogue" if "list_all (exited \<circ> snd) (goroutines s)"
    using that wg np assms(2) by (simp add: step_def main_step_def pending_zero_iff [symmetric])
qed

text \<open>
  Claim C6: in every run of \<^verbatim>\<open>runCheck\<close>, when the main goroutine is past
  \<^verbatim>\<open>wg.Wait()\<close> one goroutine has been started for every endpoint and all of them have
  exited; the line with the total elapsed time is printed only after that; while any
  goroutine has not exited the main goroutine stays blocked in \<^verbatim>\<open>Wait\<close>, whatever the
  results of the others, and it passes once all have exited; a goroutine that has not
  exited can always take its next step (nothing cancels it), and the result it holds is
  the outcome of its own request.
\<close>

theorem runCheck_waits_for_all:
  assumes "s = run nets es (initial fl w)"
  shows "(past_barrier s \<longrightarrow>
            length (goroutines s) = length (endpoints s)
          \<and> endpoints s = build_endpoints (urls fl)
          \<and> list_all (exited \<circ> snd) (goroutines s))
       \<and> (list_ex is_Complete (stdout s) \<longrightarrow> main s = M_done)
       \<and> (main s = M_wait \<and> \<not> list_all (exited \<circ> snd) (goroutines s)
            \<longrightarrow> step nets Main s = s)
       \<and> (main s = M_wait \<and> list_all (exited \<circ> snd) (goroutines s)
            \<longrightarrow> main (step nets Main s) = M_epilogue)
       \<and> (\<forall>i < length (goroutines s).
            (\<not> exited (snd (goroutines s ! i))
               \<longrightarrow> Suc (todo (step nets (Go i) s)) = todo s)
            \<and> (\<forall>r. result_of (snd (goroutines s ! i)) = Some r \<longrightarrow>
                  outcome_of (nets i (client_Timeout fl) (URL (endpoints s ! i)))
                    (endpoints s ! i) r))"
proof -
  from assms have i: "invariant nets s"
    by (simp add: invariant_run invariant_initial)
  from assms have b: "built s"
    by (simp add: built_run built_initial)
  from assms have g: "globals s = fl"
    by (simp add: initial_def)
  from i have np: "\<not> panicked s"
    by (simp add: invariant_def)
  have 1: "past_barrier s \<longrightarrow>
            length (goroutines s) = length (endpoints s)
          \<and> endpoints s = build_endpoints (urls fl)
          \<and> list_all (exited \<circ> snd) (goroutines s)"
  proof
    assume pb: "past_barrier s"
    with b g have "endpoints s = build_endpoints (urls fl)"
      by (auto simp: built_def past_barrier_def)
    with invariant_barrier(1,2) [OF i pb]
    show "length (goroutines s) = length (endpoints s)
          \<and> endpoints s = build_endpoints (urls fl)
          \<and> list_all (exited \<circ> snd) (goroutines s)"
      by simp
  qed
  from i have 2: "list_ex is_Complete (stdout s) \<longrightarrow> main s = M_done"
    by (simp add: invariant_def)
  have 3: "main s = M_wait \<and> \<not> list_all (exited \<circ> snd) (goroutines s)
            \<longrightarrow> step nets Main s = s"
    using wait_blocks(1) [OF i] by blast
  have 4: "main s = M_wait \<and> list_all (exited \<circ> snd) (goroutines s)
            \<longrightarrow> main (step nets Main s) = M_epilogue"
    using wait_blocks(2) [OF i] by blast
  have 5: "\<forall>i < length (goroutines s).
            (\<not> exited (snd (goroutines s ! i))
               \<longrightarrow> Suc (todo (step nets (Go i) s)) = todo s)
            \<and> (\<forall>r. result_of (snd (goroutines s ! i)) = Some r \<longrightarrow>
                  outcome_of (nets i (client_Timeout fl) (URL (endpoints s ! i)))
                    (endpoints s ! i) r)"
  proof (intro allI impI conjI)
    fix k
    assume k: "k < length (goroutines s)"
    show "Suc (todo (step nets (Go k) s)) = todo s" if "\<not> exited (snd (goroutines s ! k))"
      using todo_go_step [OF i k that] np by (simp add: step_def)
    fix r
    assume r: "result_of (snd (goroutines s ! k)) = Some r"
    from i k have "g_ok (nets k) (globals s) (endpoints s ! k) (snd (goroutines s ! k))"
      by (simp add: invariant_def)
    from g_ok_printed [OF this r] g
    show "outcome_of (nets k (client_Timeout fl) (URL (endpoints s ! k))) (endpoints s ! k) r"
      by simp
  qed
  from 1 2 3 4 5 show ?thesis
    by blast
qed

theorem runCheck_waits_for_all_witness:
  "past_barrier (run mixed_nets runCheck_schedule (initial default_flags world0))
   \<and> list_all (exited \<circ> snd)
       (goroutines (run mixed_nets runCheck_schedule (initial default_flags world0)))
   \<and> list_ex is_Complete (stdout (run mixed_nets runCheck_schedule (initial default_flags world0)))
   \<and> main (run mixed_nets runCheck_schedule (initial default_flags world0)) = M_done
   \<and> main (run mixed_nets waiting_schedule (initial default_flags world0)) = M_wait
   \<and> \<not> list_all (exited \<circ> snd)
       (goroutines (run mixed_nets waiting_schedule (initial default_flags world0)))
   \<and> step mixed_nets Main (run mixed_nets waiting_schedule (initial default_flags world0))
       = run mixed_nets waiting_schedule (initial default_flags world0)
   \<and> (1::nat) < length (goroutines (run mixed_nets waiting_schedule (initial default_flags world0)))
   \<and> result_of (snd (goroutines (run mixed_nets waiting_schedule (initial default_flags world0)) ! 1))
       = Some \<lparr>Endpoint = default_endpoints ! 1, IsHealthy = False, StatusCode = 500,
               Duration = 0, Error = None\<rparr>
   \<and> outcome_of (mixed_nets 1 (client_Timeout default_flags) (URL (default_endpoints ! 1)))
       (default_endpoints ! 1)
       \<lparr>Endpoint = default_endpoints ! 1, IsHealthy = False, StatusCode = 500,
         Duration = 0, Error = None\<rparr>
   \<and> Suc (todo (step mixed_nets (Go 1)
         (run mixed_nets waiting_schedule (initial default_flags world0))))
       = todo (run mixed_nets waiting_schedule (initial default_flags world0))"
proof -
  let ?done = "run mixed_nets runCheck_schedule (initial default_flags world0)"
  let ?wait = "run mixed_nets waiting_schedule (initial default_flags world0)"
  have pb: "past_barrier ?done"
    by code_simp
  have cp: "list_ex is_Complete (stdout ?done)"
    by code_simp
  have mw: "main ?wait = M_wait"
    by code_simp
  have live: "\<not> list_all (exited \<circ> snd) (goroutines ?wait)"
    by code_simp
  have len: "(1::nat) < length (goroutines ?wait)"
    by code_simp
  have l1: "\<not> exited (snd (goroutines ?wait ! 1))"
    by code_simp
  have res: "result_of (snd (goroutines ?wait ! 1))
       = Some \<lparr>Endpoint = default_endpoints ! 1, IsHealthy = False, StatusCode = 500,
               Duration = 0, Error = None\<rparr>"
    by code_simp
  have eps: "endpoints ?wait ! 1 = default_endpoints ! 1"
    by code_simp
  note d = runCheck_waits_for_all
    [where nets = mixed_nets and es = runCheck_schedule and fl = default_flags and w = world0,
      OF refl]
  note w = runCheck_waits_for_all
    [where nets = mixed_nets and es = waiting_schedule and fl = default_flags and w = world0,
      OF refl]
  from d pb cp have "list_all (exited \<circ> snd) (goroutines ?done)" and "main ?done = M_done"
    by blast+
  moreover from w mw live have "step mixed_nets Main ?wait = ?wait"
    by blast
  moreover from w len l1 have "Suc (todo (step mixed_nets (Go 1) ?wait)) = todo ?wait"
    by blast
  moreover from w len res
  have "outcome_of (mixed_nets 1 (client_Timeout default_flags) (URL (endpoints ?wait ! 1)))
       (endpoints ?wait ! 1)
       \<lparr>Endpoint = default_endpoints ! 1, IsHealthy = False, StatusCode = 500,
         Duration = 0, Error = None\<rparr>"
    by blast
  ultimately show ?thesis
    using pb cp mw live len res eps by simp
qed

subsection \<open>The empty endpoint list\<close>

text \<open>
  Claim C7: with an empty endpoint list no goroutine is ever started, no result is
  printed, the WaitGroup counter stays zero and \<^verbatim>\<open>Wait\<close> never blocks; the main goroutine
  finishes in its own three steps, reporting 0 endpoints and as elapsed time only the time
  that passes during these steps (zero when the clock does not advance).
\<close>

theorem dispatch_empty:
  assumes "s = run nets es (dispatch fl w [])"
  shows "goroutines s = [] \<and> reports (stdout s) = [] \<and> wg s = 0 \<and> \<not> panicked s
       \<and> (\<forall>i. step nets (Go i) s = s)
       \<and> (main s = M_wait \<longrightarrow> main (step nets Main s) = M_epilogue)
       \<and> main (run nets [Main, Main, Main] (dispatch fl w [])) = M_done
       \<and> stdout (run nets [Main, Main, Main] (dispatch fl w [])) = [Rule, Complete 0 0]
       \<and> stdout (run nets [Tick a, Main, Tick b, Main, Tick c, Main] (dispatch fl w []))
           = [Rule, Complete 0 (min (int (a + b + c)) maxDuration)]"
proof -
  from assms have i: "invariant nets s"
    by (simp add: invariant_run invariant_dispatch)
  from assms have eps: "endpoints s = []"
    by simp
  from i eps have gs: "goroutines s = []"
    by (cases "main s") (auto simp: invariant_def)
  from i gs have rp: "reports (stdout s) = []"
    by (simp add: invariant_def)
  from i gs eps have wg: "wg s = 0"
    by (cases "main s") (auto simp: invariant_def)
  from i have np: "\<not> panicked s"
    by (simp add: invariant_def)
  from gs have idle: "\<forall>i. step nets (Go i) s = s"
    by (simp add: step_def go_step_def)
  from wg np have pass: "main s = M_wait \<longrightarrow> main (step nets Main s) = M_epilogue"
    by (simp add: step_def main_step_def)
  have alone: "main (run nets [Main, Main, Main] (dispatch fl w [])) = M_done"
    "stdout (run nets [Main, Main, Main] (dispatch fl w [])) = [Rule, Complete 0 0]"
    by (simp_all add: dispatch_def step_def main_step_def time_Since_def time_Now_def
        time_Sub_def maxDuration_def minDuration_def)
  have "time_Sub (now w + int a + int b + int c) (now w) = min (int (a + b + c)) maxDuration"
    using time_Sub_tick [of "now w" "a + b + c"] by (simp add: add.assoc)
  then have ticks: "stdout (run nets [Tick a, Main, Tick b, Main, Tick c, Main] (dispatch fl w []))
           = [Rule, Complete 0 (min (int (a + b + c)) maxDuration)]"
    by (simp add: dispatch_def step_def main_step_def time_Since_def time_Now_def tick_def)
  from gs rp wg np idle pass alone ticks show ?thesis
    by blast
qed

theorem dispatch_empty_witness:
  "main (run mixed_nets [Main, Tick 3, Go 0] (dispatch default_flags world0 [])) = M_wait
   \<and> main (step mixed_nets Main
        (run mixed_nets [Main, Tick 3, Go 0] (dispatch default_flags world0 []))) = M_epilogue
   \<and> goroutines (run mixed_nets [Main, Tick 3, Go 0] (dispatch default_flags world0 [])) = []
   \<and> stdout (run mixed_nets [Main, Main, Main] (dispatch default_flags world0 []))
       = [Rule, Complete 0 0]"
proof -
  have mw: "main (run mixed_nets [Main, Tick 3, Go 0] (dispatch default_flags world0 [])) = M_wait"
    by code_simp
  from dispatch_empty
    [where nets = mixed_nets and es = "[Main, Tick 3, Go 0]" and fl = default_flags
      and w = world0, OF refl] mw
  show ?thesis
    by blast
qed

subsection \<open>The verbose flag\<close>

lemma reports_filter_TimeoutLine:
  "reports (filter (\<lambda>e. \<not> is_TimeoutLine e) out) = reports out"
  by (induction out rule: reports.induct) simp_all

lemma checkEndpoint_enter_verbose:
  "checkEndpoint_enter (fl\<lparr>verbose := b\<rparr>) ep w = checkEndpoint_enter fl ep w"
  by (simp add: checkEndpoint_enter_def client_Timeout_def)

lemma erase_main_step: "erase (main_step s) = main_step (erase s)"
proof (cases "main s")
  case M_prologue
  then show ?thesis by (simp add: erase_def main_step_def)
next
  case M_start
  then show ?thesis by (simp add: erase_def main_step_def)
next
  case M_build
  then show ?thesis by (simp add: erase_def main_step_def)
next
  case (M_loop k)
  then show ?thesis by (simp add: erase_def main_step_def WaitGroup_Add_def)
next
  case (M_go k ep)
  then show ?thesis by (simp add: erase_def main_step_def)
next
  case M_wait
  then show ?thesis by (simp add: erase_def main_step_def)
next
  case M_epilogue
  then show ?thesis by (simp add: erase_def main_step_def)
next
  case M_done
  then show ?thesis by (simp add: erase_def main_step_def)
qed

lemma erase_go_step: "erase (go_step nets i s) = go_step nets i (erase s)"
proof (cases "i < length (goroutines s)")
  case False
  then show ?thesis by (simp add: erase_def go_step_def)
next
  case True
  obtain ep pc where g: "goroutines s ! i = (ep, pc)"
    by (cases "goroutines s ! i")
  show ?thesis
  proof (cases pc)
    case G_call
    with True g show ?thesis
      by (simp add: erase_def go_step_def checkEndpoint_enter_verbose)
  next
    case (G_get fr)
    obtain r w where "checkEndpoint_leave (nets i) fr (env s) = (r, w)"
      by (cases "checkEndpoint_leave (nets i) fr (env s)")
    with G_get True g show ?thesis
      by (simp add: erase_def go_step_def)
  next
    case (G_print r)
    with True g show ?thesis
      by (simp add: erase_def go_step_def)
  next
    case (G_defer r)
    with True g show ?thesis
      by (simp add: erase_def go_step_def WaitGroup_Add_def)
  next
    case (G_exit r)
    with True g show ?thesis
      by (simp add: erase_def go_step_def)
  qed
qed

lemma erase_step: "erase (step nets e s) = step nets e (erase s)"
proof (cases "panicked s")
  case True
  then show ?thesis by (simp add: step_def erase_def)
next
  case False
  then have "\<not> panicked (erase s)" by (simp add: erase_def)
  with False show ?thesis
  proof (cases e)
    case (Tick d)
    with False show ?thesis by (simp add: step_def erase_def)
  next
    case Main
    with False \<open>\<not> panicked (erase s)\<close> show ?thesis
      by (simp add: step_def erase_main_step)
  next
    case (Go i)
    with False \<open>\<not> panicked (erase s)\<close> show ?thesis
      by (simp add: step_def erase_go_step)
  qed
qed

lemma erase_run: "erase (run nets es s) = run nets es (erase s)"
  by (induction es arbitrary: s) (simp_all add: erase_step)

lemma erase_initial: "erase (initial (fl\<lparr>verbose := b\<rparr>) w) = initial (fl\<lparr>verbose := False\<rparr>) w"
  by (simp add: erase_def initial_def)

text \<open>
  Claim C10: two runs of \<^verbatim>\<open>runCheck\<close> under the same schedule and transports that
  differ only in the verbose flag print the same results, hold the same goroutine states
  and leave the same world; the output of the run without the flag is the output of the
  run with it minus the timeout line; \<^verbatim>\<open>checkEndpoint\<close> does not read the flag.
\<close>

theorem verbose_leaves_results_alone:
  assumes "s1 = run nets es (initial (fl\<lparr>verbose := True\<rparr>) w)"
    and "s0 = run nets es (initial (fl\<lparr>verbose := False\<rparr>) w)"
  shows "reports (stdout s1) = reports (stdout s0)
       \<and> set (reports (stdout s1)) = set (reports (stdout s0))
       \<and> goroutines s1 = goroutines s0
       \<and> env s1 = env s0
       \<and> main s1 = main s0
       \<and> stdout s0 = filter (\<lambda>e. \<not> is_TimeoutLine e) (stdout s1)
       \<and> checkEndpoint net (fl\<lparr>verbose := b\<rparr>) ep d w' = checkEndpoint net fl ep d w'"
proof -
  have "erase (run nets es (initial (fl\<lparr>verbose := True\<rparr>) w))
      = run nets es (initial (fl\<lparr>verbose := False\<rparr>) w)"
    by (simp only: erase_run erase_initial)
  with assms have e: "erase s1 = s0"
    by (simp only:)
  have out: "stdout s0 = filter (\<lambda>e. \<not> is_TimeoutLine e) (stdout s1)"
    unfolding e [symmetric] by (simp add: erase_def)
  have gs: "goroutines s1 = goroutines s0"
    unfolding e [symmetric] by (simp add: erase_def)
  have env: "env s1 = env s0"
    unfolding e [symmetric] by (simp add: erase_def)
  have pc: "main s1 = main s0"
    unfolding e [symmetric] by (simp add: erase_def)
  from out have rp: "reports (stdout s1) = reports (stdout s0)"
    by (simp add: reports_filter_TimeoutLine)
  have ce: "checkEndpoint net (fl\<lparr>verbose := b\<rparr>) ep d w' = checkEndpoint net fl ep d w'"
    by (simp add: checkEndpoint_def checkEndpoint_enter_verbose)
  from out gs env pc rp ce show ?thesis
    by (simp only: simp_thms)
qed

theorem verbose_leaves_results_alone_witness:
  "stdout (run mixed_nets short_schedule (initial (default_flags\<lparr>verbose := True\<rparr>) world0))
     = [Banner, Rule, TimeoutLine 10, Blank,
        Report \<lparr>Endpoint = default_endpoints ! 0, IsHealthy = True, StatusCode = 200,
                Duration = 0, Error = None\<rparr>]
   \<and> stdout (run mixed_nets short_schedule (initial (default_flags\<lparr>verbose := False\<rparr>) world0))
     = [Banner, Rule, Blank,
        Report \<lparr>Endpoint = default_endpoints ! 0, IsHealthy = True, StatusCode = 200,
                Duration = 0, Error = None\<rparr>]
   \<and> reports (stdout
        (run mixed_nets short_schedule (initial (default_flags\<lparr>verbose := True\<rparr>) world0)))
     = reports (stdout
        (run mixed_nets short_schedule (initial (default_flags\<lparr>verbose := False\<rparr>) world0)))"
proof -
  let ?s1 = "run mixed_nets short_schedule (initial (default_flags\<lparr>verbose := True\<rparr>) world0)"
  let ?s0 = "run mixed_nets short_schedule (initial (default_flags\<lparr>verbose := False\<rparr>) world0)"
  let ?r = "\<lparr>Endpoint = default_endpoints ! 0, IsHealthy = True, StatusCode = 200,
                Duration = 0, Error = None\<rparr>"
  have v: "stdout ?s1 = [Banner, Rule, TimeoutLine 10, Blank, Report ?r]"
    by code_simp
  note t = verbose_leaves_results_alone
    [where nets = mixed_nets and es = short_schedule and fl = default_flags and w = world0
      and ?s1.0 = ?s1 and ?s0.0 = ?s0, OF refl refl]
  from t have r: "reports (stdout ?s1) = reports (stdout ?s0)"
    by (rule conjunct1)
  from t have "stdout ?s0 = filter (\<lambda>e. \<not> is_TimeoutLine e) (stdout ?s1)"
    by blast
  then have q: "stdout ?s0 = [Banner, Rule, Blank, Report ?r]"
    unfolding v by simp
  from v q r show ?thesis
    by (intro conjI)
qed

end
